theory Spec2Isabelle
  imports Main "HOL-Library.Multiset"
begin

section \<open>Strings and paths\<close>

text \<open>
  JavaScript strings are modelled as \<^typ>\<open>string\<close>.  \<open>s.split('/')\<close> never returns the
  empty array: the empty string splits into one empty segment.
\<close>

fun split_slash :: "string \<Rightarrow> string list" where
  "split_slash [] = [[]]"
| "split_slash (c # cs) =
     (if c = CHR ''/'' then [] # split_slash cs
      else (case split_slash cs of
              [] \<Rightarrow> [[c]]
            | w # ws \<Rightarrow> (c # w) # ws))"

text \<open>\<open>xs.join('/')\<close>.\<close>

fun join_slash :: "string list \<Rightarrow> string" where
  "join_slash [] = []"
| "join_slash [x] = x"
| "join_slash (x # y # ys) = x @ ''/'' @ join_slash (y # ys)"

text \<open>\<open>s.startsWith(p)\<close>.\<close>

fun startsWith :: "string \<Rightarrow> string \<Rightarrow> bool" where
  "startsWith s [] = True"
| "startsWith [] (p # ps) = False"
| "startsWith (c # cs) (p # ps) = (c = p \<and> startsWith cs ps)"

text \<open>
  Node's POSIX \<open>path.join\<close> (a library function, not code of the repository), following its
  documented behaviour: the non-empty arguments are joined with a slash and the result is
  normalised segment by segment (empty and \<open>.\<close> segments vanish, \<open>..\<close> removes the segment
  before it, or stays when there is none and the path is relative); a trailing slash is kept;
  an empty result is \<open>.\<close>.  \<open>normalizeSegments\<close> keeps the segments seen so far in reverse.
\<close>

fun normalizeSegments :: "bool \<Rightarrow> string list \<Rightarrow> string list \<Rightarrow> string list" where
  "normalizeSegments allowAboveRoot res [] = rev res"
| "normalizeSegments allowAboveRoot res (s # ss) =
     (if s = [] \<or> s = ''.'' then normalizeSegments allowAboveRoot res ss
      else if s = ''..'' then
        (case res of
           [] \<Rightarrow> normalizeSegments allowAboveRoot (if allowAboveRoot then [''..''] else []) ss
         | r # rs \<Rightarrow>
             if r = ''..'' then
               normalizeSegments allowAboveRoot (if allowAboveRoot then ''..'' # res else res) ss
             else normalizeSegments allowAboveRoot rs ss)
      else normalizeSegments allowAboveRoot (s # res) ss)"

definition path_normalize :: "string \<Rightarrow> string" where
  "path_normalize p =
     (if p = [] then ''.''
      else
        (let isAbsolute = (hd p = CHR ''/'');
             trailingSeparator = (last p = CHR ''/'');
             q = join_slash (normalizeSegments (\<not> isAbsolute) [] (split_slash p))
         in if q = [] then (if isAbsolute then ''/'' else if trailingSeparator then ''./'' else ''.'')
            else (let q' = (if trailingSeparator then q @ ''/'' else q)
                  in if isAbsolute then ''/'' @ q' else q')))"

definition path_join :: "string list \<Rightarrow> string" where
  "path_join args =
     (let parts = filter (\<lambda>a. a \<noteq> []) args
      in if parts = [] then ''.'' else path_normalize (join_slash parts))"

section \<open>Catalog entities\<close>

text \<open>
  The \<open>Entity\<close> type of the catalog model, restricted to the fields the helpers read.
  Optional fields are options; \<open>spec\<close> is an untyped JSON object in the source, of which
  the helpers read \<open>type\<close>, \<open>system\<close> and \<open>owner\<close> as strings (here \<open>spec_type\<close>,
  \<open>spec_system\<close>, \<open>spec_owner\<close>; a relation's \<open>type\<close> is \<open>rel_type\<close>).  The annotations object is
  an association list read with \<^const>\<open>map_of\<close>.
\<close>

record EntityRelation =
  rel_type :: string
  targetRef :: string

record EntityMeta =
  name :: string
  namespace :: "string option"
  title :: "string option"
  tags :: "string list option"
  annotations :: "(string \<times> string) list option"

record EntitySpec =
  spec_type :: "string option"
  spec_system :: "string option"
  spec_owner :: "string option"

record Entity =
  kind :: string
  metadata :: EntityMeta
  spec :: "EntitySpec option"
  relations :: "EntityRelation list option"

text \<open>
  Dereferencing \<open>undefined\<close> raises a \<open>TypeError\<close>; the catalog model's \<open>parseEntityRef\<close>
  raises a plain \<open>Error\<close> on an empty reference or a reference without a kind.
\<close>

datatype error = TypeError | Error

section \<open>generate-component-matrix.ts\<close>

definition sourceLocation :: "Entity \<Rightarrow> string option" where
  "sourceLocation entity =
     (case annotations (metadata entity) of
        None \<Rightarrow> None
      | Some anns \<Rightarrow> map_of anns ''backstage.io/source-location'')"

text \<open>
  \<open>loc.split('/').slice(7, -1).join('/')\<close>; the non-null assertion on \<open>loc\<close> is erased at
  run time, so a missing annotation makes \<open>loc.split\<close> raise.
\<close>

definition sourceLocationDir :: "Entity \<Rightarrow> error + string" where
  "sourceLocationDir entity =
     (case sourceLocation entity of
        None \<Rightarrow> Inl TypeError
      | Some loc \<Rightarrow> Inr (join_slash (butlast (drop 7 (split_slash loc)))))"

text \<open>\<open>path.join('./', ...dirs, rootFile)\<close>.\<close>

definition testFile :: "string \<Rightarrow> string list \<Rightarrow> string" where
  "testFile rootFile dirs = path_join (''./'' # dirs @ [rootFile])"

text \<open>
  The loop of \<open>findRoot\<close>.  \<open>existsSync\<close> is the file system.  The \<open>finally\<close> block pops
  \<open>dirs\<close> on every way out of the \<open>try\<close> block, the \<open>break\<close> included, and \<open>pop\<close> on the
  empty array leaves it empty (\<^const>\<open>butlast\<close>).  The result is \<open>dirs\<close> when the loop is
  left; \<open>None\<close> is a loop that never ends.
\<close>

partial_function (option) findRoot_loop ::
  "(string \<Rightarrow> bool) \<Rightarrow> string \<Rightarrow> string list \<Rightarrow> string list option" where
  "findRoot_loop existsSync rootFile dirs =
     (if 0 \<le> length dirs then
        (if existsSync (testFile rootFile dirs) then Some (butlast dirs)
         else findRoot_loop existsSync rootFile (butlast dirs))
      else Some dirs)"

declare findRoot_loop.simps [code]

definition findRoot :: "(string \<Rightarrow> bool) \<Rightarrow> string \<Rightarrow> string \<Rightarrow> string option" where
  "findRoot existsSync fileName rootFile =
     (case findRoot_loop existsSync rootFile (split_slash fileName) of
        None \<Rightarrow> None
      | Some dirs \<Rightarrow> Some (if length dirs > 0 then join_slash dirs else ''./''))"

text \<open>
  Some directory on the way from the path \<open>dirs\<close> up to the repository root, both included,
  holds the marker file: the condition under which the loop of \<open>findRoot\<close> is left.
\<close>

definition markerFound :: "(string \<Rightarrow> bool) \<Rightarrow> string \<Rightarrow> string list \<Rightarrow> bool" where
  "markerFound existsSync rootFile dirs =
     list_ex (\<lambda>k. existsSync (testFile rootFile (take k dirs))) [0..<Suc (length dirs)]"

text \<open>
  The inputs of \<open>generateComponentMatrix\<close> that come from outside: the catalog's entities,
  the environment variables \<open>GITHUB_SERVER_URL\<close> and \<open>GITHUB_EVENT_NAME\<close> (absent or a
  string), the repository of the workflow context, the changed files that
  \<open>getChangedFiles\<close> returned, and the file system.  The field \<open>file\<close> of a changed file is
  \<open>filename\<close> here, and the fields \<open>name\<close> and \<open>tags\<close> of a row of the matrix are \<open>row_name\<close>
  and \<open>row_tags\<close>.
\<close>

record ChangedFile =
  filename :: string

record MatrixRow =
  row_name :: string
  row_tags :: "string list option"
  path :: string
  nodeRoot :: string
  runSlither :: bool

text \<open>A template literal prints an absent value as \<open>undefined\<close>.\<close>

definition repoUrl :: "string option \<Rightarrow> string \<Rightarrow> string \<Rightarrow> string" where
  "repoUrl server_url repo_owner repo_name =
     (case server_url of None \<Rightarrow> ''undefined'' | Some u \<Rightarrow> u) @ ''/'' @ repo_owner @ ''/'' @ repo_name"

definition contractItems :: "string \<Rightarrow> Entity list \<Rightarrow> Entity list" where
  "contractItems url items =
     filter (\<lambda>item. (case spec item of None \<Rightarrow> False | Some sp \<Rightarrow> spec_type sp = Some ''contract''))
       (filter (\<lambda>item. (case sourceLocation item of
                          None \<Rightarrow> False
                        | Some loc \<Rightarrow> startsWith loc (''url:'' @ url))) items)"

text \<open>
  The \<open>loc\<close> that a changed file is tested against is the whole annotation, as in the source.
  Every element of its argument has the annotation (the first filter of \<^const>\<open>contractItems\<close>);
  without it \<open>startsWith(undefined)\<close> tests against the text \<open>undefined\<close>.
\<close>

definition changedContracts :: "ChangedFile list \<Rightarrow> Entity list \<Rightarrow> Entity list" where
  "changedContracts changedFiles items =
     filter (\<lambda>contractItem.
        list_ex (\<lambda>f. startsWith (filename f)
                   (case sourceLocation contractItem of None \<Rightarrow> ''undefined'' | Some loc \<Rightarrow> loc))
          changedFiles) items"

definition forceAll :: "string option \<Rightarrow> bool" where
  "forceAll eventName = (eventName \<noteq> Some ''pull_request'')"

text \<open>
  One element of \<open>include\<close>.  A result is \<open>None\<close> when \<open>findRoot\<close> never returns,
  \<open>Some (Inl e)\<close> when the callback raises, \<open>Some (Inr row)\<close> otherwise.  The source calls
  \<open>sourceLocationDir(item)\<close> twice, for \<open>path\<close> and for \<open>nodeRoot\<close>, with the same result.
  \<open>changed.includes(item)\<close> compares object identities; \<open>changed\<close> is a sublist of the list
  \<open>item\<close> is taken from, filtered by a test on the entity's content alone, so the entity is
  in it exactly when an equal entity is.
\<close>

definition matrixRow ::
  "(string \<Rightarrow> bool) \<Rightarrow> bool \<Rightarrow> Entity list \<Rightarrow> Entity \<Rightarrow> (error + MatrixRow) option" where
  "matrixRow existsSync force changed item =
     (case tags (metadata item) of
        None \<Rightarrow> Some (Inl TypeError)
      | Some ts \<Rightarrow>
          (let isSolidity = (''near'' \<notin> set ts);
               slither = (isSolidity \<and> (force \<or> item \<in> set changed))
           in case sourceLocationDir item of
                Inl e \<Rightarrow> Some (Inl e)
              | Inr dir \<Rightarrow>
                  (case findRoot existsSync dir ''package.json'' of
                     None \<Rightarrow> None
                   | Some root \<Rightarrow>
                       Some (Inr \<lparr>row_name = name (metadata item), row_tags = tags (metadata item),
                                  path = dir, nodeRoot = root, runSlither = slither\<rparr>))))"

text \<open>\<open>items.map(f)\<close> for a callback that may raise or not return: the first such call decides.\<close>

fun mapRows :: "('a \<Rightarrow> (error + 'b) option) \<Rightarrow> 'a list \<Rightarrow> (error + 'b list) option" where
  "mapRows f [] = Some (Inr [])"
| "mapRows f (x # xs) =
     (case f x of
        None \<Rightarrow> None
      | Some (Inl e) \<Rightarrow> Some (Inl e)
      | Some (Inr y) \<Rightarrow>
          (case mapRows f xs of
             None \<Rightarrow> None
           | Some (Inl e) \<Rightarrow> Some (Inl e)
           | Some (Inr ys) \<Rightarrow> Some (Inr (y # ys))))"

definition generateComponentMatrix ::
  "(string \<Rightarrow> bool) \<Rightarrow> string option \<Rightarrow> string \<Rightarrow> string \<Rightarrow> string option \<Rightarrow>
   ChangedFile list \<Rightarrow> Entity list \<Rightarrow> (error + MatrixRow list) option" where
  "generateComponentMatrix existsSync server_url repo_owner repo_name eventName changedFiles items =
     (let cands = contractItems (repoUrl server_url repo_owner repo_name) items;
          changed = changedContracts changedFiles cands
      in mapRows (matrixRow existsSync (forceAll eventName) changed) cands)"

section \<open>The catalog model's entity references\<close>

text \<open>
  \<open>stringifyEntityRef\<close> and \<open>parseEntityRef\<close> are functions of the catalog-model library,
  not of the repository; they are modelled on the library's behaviour.  \<open>stringifyEntityRef\<close>
  lower-cases kind, namespace and name; lower-casing is modelled on the ASCII letters.
\<close>

definition toLowerCase_char :: "char \<Rightarrow> char" where
  "toLowerCase_char c =
     (let n = (of_char c :: nat) in if 65 \<le> n \<and> n \<le> 90 then char_of (n + 32) else c)"

definition toLowerCase :: "string \<Rightarrow> string" where
  "toLowerCase s = map toLowerCase_char s"

definition stringifyEntityRef :: "Entity \<Rightarrow> string" where
  "stringifyEntityRef e =
     toLowerCase (kind e) @ '':'' @
     toLowerCase (case namespace (metadata e) of None \<Rightarrow> ''default'' | Some ns \<Rightarrow> ns) @ ''/'' @
     toLowerCase (name (metadata e))"

text \<open>\<open>s.indexOf(c)\<close>, with \<open>None\<close> for \<open>-1\<close>.\<close>

definition indexOf :: "string \<Rightarrow> char \<Rightarrow> nat option" where
  "indexOf s c = (if c \<in> set s then Some (length (takeWhile (\<lambda>x. x \<noteq> c) s)) else None)"

text \<open>
  The \<open>kind\<close> of \<open>parseEntityRef(ref)\<close>, called without a default kind: an empty reference
  and a reference without a kind raise an \<open>Error\<close>; an empty kind, namespace or name raises
  a \<open>TypeError\<close>.  The kind is returned as it is written in the reference.
\<close>

definition parseEntityRef_kind :: "string \<Rightarrow> error + string" where
  "parseEntityRef_kind ref =
     (if ref = [] then Inl Error
      else
        (let slashI = indexOf ref (CHR ''/'');
             colonI = (case (indexOf ref (CHR '':''), slashI) of
                         (Some c, Some sl) \<Rightarrow> if sl < c then None else Some c
                       | (ci, _) \<Rightarrow> ci);
             afterColon = (case colonI of None \<Rightarrow> 0 | Some c \<Rightarrow> c + 1);
             afterSlash = (case slashI of None \<Rightarrow> 0 | Some sl \<Rightarrow> sl + 1);
             knd = (case colonI of None \<Rightarrow> None | Some c \<Rightarrow> Some (take c ref));
             nsp = (case slashI of None \<Rightarrow> None
                    | Some sl \<Rightarrow> Some (drop afterColon (take sl ref)));
             nm = drop (max afterColon afterSlash) ref
         in if knd = Some [] \<or> nsp = Some [] \<or> nm = [] then Inl TypeError
            else (case knd of None \<Rightarrow> Inl Error | Some k \<Rightarrow> Inr k)))"

section \<open>Arrays with callbacks that may raise\<close>

fun mapE :: "('a \<Rightarrow> error + 'b) \<Rightarrow> 'a list \<Rightarrow> error + 'b list" where
  "mapE f [] = Inr []"
| "mapE f (x # xs) =
     (case f x of
        Inl e \<Rightarrow> Inl e
      | Inr y \<Rightarrow> (case mapE f xs of Inl e \<Rightarrow> Inl e | Inr ys \<Rightarrow> Inr (y # ys)))"

fun filterE :: "('a \<Rightarrow> error + bool) \<Rightarrow> 'a list \<Rightarrow> error + 'a list" where
  "filterE p [] = Inr []"
| "filterE p (x # xs) =
     (case p x of
        Inl e \<Rightarrow> Inl e
      | Inr b \<Rightarrow> (case filterE p xs of Inl e \<Rightarrow> Inl e | Inr ys \<Rightarrow> Inr (if b then x # ys else ys)))"

text \<open>
  \<open>xs.sort(cmp)\<close> is stable; for a comparator that is a total preorder its result is the
  stable insertion sort.  The comparator returns a number, of which only the sign is used.
\<close>

fun insert_cmp :: "('a \<Rightarrow> 'a \<Rightarrow> int) \<Rightarrow> 'a \<Rightarrow> 'a list \<Rightarrow> 'a list" where
  "insert_cmp cmp x [] = [x]"
| "insert_cmp cmp x (y # ys) = (if cmp x y \<le> 0 then x # y # ys else y # insert_cmp cmp x ys)"

definition sort_cmp :: "('a \<Rightarrow> 'a \<Rightarrow> int) \<Rightarrow> 'a list \<Rightarrow> 'a list" where
  "sort_cmp cmp xs = foldr (insert_cmp cmp) xs []"

text \<open>\<open>[...new Set(list)]\<close>: the first occurrence of every element, in order.\<close>

definition uniq :: "'a list \<Rightarrow> 'a list" where
  "uniq xs = rev (remdups (rev xs))"

section \<open>backstage-multisig-metrics.ts\<close>

record MultisigSigner =
  ms_signer :: Entity
  ms_owner :: "Entity option"

record MultisigInfo =
  mi_entity :: Entity
  mi_signers :: "MultisigSigner list"

record ComponentMultisigs =
  cm_title :: string
  cm_component :: Entity
  cm_multisigs :: "MultisigInfo list"

record SystemComponents =
  sc_title :: string
  sc_system :: Entity
  sc_components :: "ComponentMultisigs list"

text \<open>
  The fields of the class.  Every method takes the object; \<open>localeCompare\<close>, the string
  comparison of the JavaScript engine, is a parameter of the methods that sort.
\<close>

record MultisigsCollector =
  systemComponents :: "SystemComponents list"
  entities :: "Entity list"
  multisigs :: "Entity list"

text \<open>\<open>e.relations || []\<close>.\<close>

definition relationsOf :: "Entity \<Rightarrow> EntityRelation list" where
  "relationsOf e = (case relations e of None \<Rightarrow> [] | Some rs \<Rightarrow> rs)"

text \<open>\<open>e.metadata.title || e.metadata.name\<close>: the empty title is falsy.\<close>

definition titleOf :: "Entity \<Rightarrow> string" where
  "titleOf e = (case title (metadata e) of
                  None \<Rightarrow> name (metadata e)
                | Some t \<Rightarrow> if t = [] then name (metadata e) else t)"

text \<open>\<open>this.entities.find(item => stringifyEntityRef(item) === ref)\<close>.\<close>

definition findEntity :: "MultisigsCollector \<Rightarrow> string \<Rightarrow> Entity option" where
  "findEntity this ref = find (\<lambda>item. stringifyEntityRef item = ref) (entities this)"

text \<open>
  The list may hold \<open>undefined\<close> (\<open>None\<close>): \<open>sort\<close> moves it behind the strings without
  calling the comparator.
\<close>

definition normalizeEntities ::
  "(string \<Rightarrow> string \<Rightarrow> int) \<Rightarrow> string option list \<Rightarrow> string option list" where
  "normalizeEntities localeCompare list =
     (let s = uniq list
      in map Some (sort_cmp localeCompare (List.map_filter (\<lambda>x. x) s)) @ filter (\<lambda>x. x = None) s)"

text \<open>\<open>p.owner.metadata.name\<close>, when the entry has an owner.\<close>

definition ownerName :: "MultisigSigner \<Rightarrow> string option" where
  "ownerName p = (case ms_owner p of None \<Rightarrow> None | Some ow \<Rightarrow> Some (name (metadata ow)))"

text \<open>
  The comparator of \<open>collectSigners\<close> reads \<open>a.owner.metadata.name\<close>.  An array of fewer than
  two elements is returned without a call of the comparator; with two or more, every element
  is compared at least once, so one entry without owner makes the sort raise.
\<close>

definition sortSigners ::
  "(string \<Rightarrow> string \<Rightarrow> int) \<Rightarrow> MultisigSigner list \<Rightarrow> error + MultisigSigner list" where
  "sortSigners localeCompare ps =
     (if length ps < 2 then Inr ps
      else if list_ex (\<lambda>p. ms_owner p = None) ps then Inl TypeError
      else Inr (sort_cmp (\<lambda>a b. localeCompare (case ownerName a of None \<Rightarrow> [] | Some n \<Rightarrow> n)
                                                (case ownerName b of None \<Rightarrow> [] | Some n \<Rightarrow> n)) ps))"

text \<open>
  The callbacks of \<open>filter\<close> and \<open>map\<close> in \<open>collectSigners\<close>.  \<open>parseEntityRef\<close> is called
  only on an owned-by relation.  An unresolved target leaves \<open>signer\<close> undefined, and
  \<open>signer.spec\<close> raises; an unresolved or undeclared owner leaves \<open>owner\<close> undefined.
\<close>

definition isSignerRelation :: "EntityRelation \<Rightarrow> error + bool" where
  "isSignerRelation r =
     (if rel_type r = ''ownedBy'' then
        (case parseEntityRef_kind (targetRef r) of Inl e \<Rightarrow> Inl e | Inr k \<Rightarrow> Inr (k \<noteq> ''group''))
      else Inr False)"

definition resolveSigner :: "MultisigsCollector \<Rightarrow> EntityRelation \<Rightarrow> error + MultisigSigner" where
  "resolveSigner this r =
     (case findEntity this (targetRef r) of
        None \<Rightarrow> Inl TypeError
      | Some signer \<Rightarrow>
          (case spec signer of
             None \<Rightarrow> Inl TypeError
           | Some sp \<Rightarrow>
               Inr \<lparr>ms_signer = signer,
                    ms_owner = (case spec_owner sp of None \<Rightarrow> None | Some ow \<Rightarrow> findEntity this ow)\<rparr>))"

definition collectSigners ::
  "(string \<Rightarrow> string \<Rightarrow> int) \<Rightarrow> MultisigsCollector \<Rightarrow> Entity \<Rightarrow> error + MultisigSigner list" where
  "collectSigners localeCompare this multisig =
     (case filterE isSignerRelation (relationsOf multisig) of
        Inl e \<Rightarrow> Inl e
      | Inr rs \<Rightarrow>
          (case mapE (resolveSigner this) rs of
             Inl e \<Rightarrow> Inl e
           | Inr ps \<Rightarrow> sortSigners localeCompare ps))"

text \<open>
  The callbacks in \<open>collectComponents\<close>: the filter of the system's relations, the filter of
  the multisig deployments that a component provides, the element built for one of them, and
  the element built for one component reference, where an unresolved target leaves
  \<open>component\<close> undefined and \<open>component.metadata\<close> raises.
\<close>

definition isComponentRelation :: "EntityRelation \<Rightarrow> error + bool" where
  "isComponentRelation r =
     (if rel_type r = ''hasPart'' then
        (case parseEntityRef_kind (targetRef r) of Inl e \<Rightarrow> Inl e | Inr k \<Rightarrow> Inr (k = ''component''))
      else Inr False)"

definition providedBy :: "string \<Rightarrow> Entity \<Rightarrow> bool" where
  "providedBy ref item =
     list_ex (\<lambda>r. rel_type r = ''apiProvidedBy'' \<and> targetRef r = ref) (relationsOf item)"

definition multisigInfo ::
  "(string \<Rightarrow> string \<Rightarrow> int) \<Rightarrow> MultisigsCollector \<Rightarrow> Entity \<Rightarrow> error + MultisigInfo" where
  "multisigInfo localeCompare this ms =
     (case collectSigners localeCompare this ms of
        Inl e \<Rightarrow> Inl e
      | Inr sg \<Rightarrow> Inr \<lparr>mi_entity = ms, mi_signers = sg\<rparr>)"

definition componentMultisigs ::
  "(string \<Rightarrow> string \<Rightarrow> int) \<Rightarrow> MultisigsCollector \<Rightarrow> EntityRelation \<Rightarrow> error + ComponentMultisigs" where
  "componentMultisigs localeCompare this componentRef =
     (case findEntity this (targetRef componentRef) of
        None \<Rightarrow> Inl TypeError
      | Some component \<Rightarrow>
          (case mapE (multisigInfo localeCompare this)
                  (filter (providedBy (targetRef componentRef)) (multisigs this)) of
             Inl e \<Rightarrow> Inl e
           | Inr ms \<Rightarrow>
               Inr \<lparr>cm_title = titleOf component, cm_component = component, cm_multisigs = ms\<rparr>))"

definition collectComponents ::
  "(string \<Rightarrow> string \<Rightarrow> int) \<Rightarrow> MultisigsCollector \<Rightarrow> Entity \<Rightarrow> error + ComponentMultisigs list" where
  "collectComponents localeCompare this sys =
     (case filterE isComponentRelation (relationsOf sys) of
        Inl e \<Rightarrow> Inl e
      | Inr componentRefs \<Rightarrow>
          (case mapE (componentMultisigs localeCompare this) componentRefs of
             Inl e \<Rightarrow> Inl e
           | Inr cs \<Rightarrow>
               Inr (sort_cmp (\<lambda>a b. localeCompare (name (metadata (cm_component a)))
                                                   (name (metadata (cm_component b)))) cs)))"

text \<open>
  The callback of \<open>collectSystems\<close>.  An unresolved reference leaves \<open>system\<close> undefined, and
  \<open>collectComponents\<close> raises on reading its relations.
\<close>

definition systemComponentsFor ::
  "(string \<Rightarrow> string \<Rightarrow> int) \<Rightarrow> MultisigsCollector \<Rightarrow> string option \<Rightarrow> error + SystemComponents" where
  "systemComponentsFor localeCompare this systemRef =
     (case (case systemRef of None \<Rightarrow> None | Some ref \<Rightarrow> findEntity this ref) of
        None \<Rightarrow> Inl TypeError
      | Some sys \<Rightarrow>
          (case collectComponents localeCompare this sys of
             Inl e \<Rightarrow> Inl e
           | Inr cs \<Rightarrow> Inr \<lparr>sc_title = titleOf sys, sc_system = sys, sc_components = cs\<rparr>))"

text \<open>\<open>item.spec!.system!\<close>: no \<open>spec\<close> raises, no \<open>system\<close> is \<open>undefined\<close>.\<close>

definition systemOf :: "Entity \<Rightarrow> error + string option" where
  "systemOf item = (case spec item of None \<Rightarrow> Inl TypeError | Some sp \<Rightarrow> Inr (spec_system sp))"

definition collectSystems ::
  "(string \<Rightarrow> string \<Rightarrow> int) \<Rightarrow> MultisigsCollector \<Rightarrow> error + SystemComponents list" where
  "collectSystems localeCompare this =
     (case mapE systemOf (multisigs this) of
        Inl e \<Rightarrow> Inl e
      | Inr refs \<Rightarrow>
          (case mapE (systemComponentsFor localeCompare this) (normalizeEntities localeCompare refs) of
             Inl e \<Rightarrow> Inl e
           | Inr scs \<Rightarrow>
               Inr (sort_cmp (\<lambda>a b. localeCompare (name (metadata (sc_system a)))
                                                   (name (metadata (sc_system b)))) scs)))"

definition isMultisig :: "Entity \<Rightarrow> bool" where
  "isMultisig item =
     (kind item = ''API'' \<and>
      (case spec item of None \<Rightarrow> False | Some sp \<Rightarrow> spec_type sp = Some ''multisig-deployment''))"

text \<open>
  The constructor: \<open>thisOf ents\<close> is the object after the assignments to \<open>entities\<close> and
  \<open>multisigs\<close>, on which \<open>collectSystems\<close> is called; the constructor raises when that call does.
\<close>

definition thisOf :: "Entity list \<Rightarrow> MultisigsCollector" where
  "thisOf ents = \<lparr>systemComponents = [], entities = ents, multisigs = filter isMultisig ents\<rparr>"

definition new_MultisigsCollector ::
  "(string \<Rightarrow> string \<Rightarrow> int) \<Rightarrow> Entity list \<Rightarrow> error + MultisigsCollector" where
  "new_MultisigsCollector localeCompare ents =
     (let this = thisOf ents
      in case collectSystems localeCompare this of
           Inl e \<Rightarrow> Inl e
         | Inr scs \<Rightarrow> Inr (this\<lparr>systemComponents := scs\<rparr>))"

text \<open>\<open>new MultisigsCollector(entities).systemComponents\<close>, the hierarchy that \<open>collectMultisigs\<close> reads.\<close>

definition hierarchy :: "(string \<Rightarrow> string \<Rightarrow> int) \<Rightarrow> Entity list \<Rightarrow> error + SystemComponents list" where
  "hierarchy localeCompare ents =
     (case new_MultisigsCollector localeCompare ents of
        Inl e \<Rightarrow> Inl e
      | Inr this \<Rightarrow> Inr (systemComponents this))"

text \<open>
  A comparator to run the examples with: the order of the character codes.  The names in the
  examples are lower-case ASCII letters and digits, which \<open>localeCompare\<close> orders the same way.
\<close>

fun codeCompare :: "string \<Rightarrow> string \<Rightarrow> int" where
  "codeCompare [] [] = 0"
| "codeCompare [] (y # ys) = - 1"
| "codeCompare (x # xs) [] = 1"
| "codeCompare (x # xs) (y # ys) =
     (if (of_char x :: nat) < of_char y then - 1
      else if (of_char y :: nat) < of_char x then 1
      else codeCompare xs ys)"

section \<open>Example data\<close>

text \<open>
  A catalog entity of type \<open>contract\<close> in the repository \<open>org/repo\<close> on \<open>https://github.com\<close>,
  its sources in the directory \<open>dir\<close> of the branch \<open>main\<close>.
\<close>

definition contractAt :: "string \<Rightarrow> string \<Rightarrow> string list option \<Rightarrow> Entity" where
  "contractAt nm dir tgs =
     \<lparr>kind = ''API'',
      metadata = \<lparr>name = nm, namespace = None, title = None, tags = tgs,
                  annotations = Some [(''backstage.io/source-location'',
                                       ''url:https://github.com/org/repo/tree/main/'' @ dir @ ''/'')]\<rparr>,
      spec = Some \<lparr>spec_type = Some ''contract'', spec_system = None, spec_owner = None\<rparr>,
      relations = None\<rparr>"

text \<open>A contract entity without annotations.\<close>

definition contractUnlocated :: "string \<Rightarrow> string list option \<Rightarrow> Entity" where
  "contractUnlocated nm tgs =
     \<lparr>kind = ''API'',
      metadata = \<lparr>name = nm, namespace = None, title = None, tags = tgs, annotations = None\<rparr>,
      spec = Some \<lparr>spec_type = Some ''contract'', spec_system = None, spec_owner = None\<rparr>,
      relations = None\<rparr>"

text \<open>
  Catalog entities for the hierarchy: an entity of a kind and name in the default namespace,
  with a title, a \<open>spec\<close> and relations.
\<close>

definition entityOf ::
  "string \<Rightarrow> string \<Rightarrow> string option \<Rightarrow> EntitySpec option \<Rightarrow> EntityRelation list option \<Rightarrow> Entity" where
  "entityOf k nm ttl sp rels =
     \<lparr>kind = k,
      metadata = \<lparr>name = nm, namespace = None, title = ttl, tags = None, annotations = None\<rparr>,
      spec = sp, relations = rels\<rparr>"

text \<open>A system with one component; users with and without a declared owner; a group.\<close>

definition sysS1 :: Entity where
  "sysS1 = entityOf ''System'' ''s1'' None None
             (Some [\<lparr>rel_type = ''hasPart'', targetRef = ''component:default/c1''\<rparr>])"

definition compC1 :: Entity where
  "compC1 = entityOf ''Component'' ''c1'' None None None"

definition userOf :: "string \<Rightarrow> string \<Rightarrow> Entity" where
  "userOf nm ow =
     entityOf ''User'' nm None
       (Some \<lparr>spec_type = None, spec_system = None, spec_owner = Some (''user:default/'' @ ow)\<rparr>) None"

definition personOf :: "string \<Rightarrow> Entity" where
  "personOf nm = entityOf ''User'' nm None None None"

definition groupG1 :: Entity where
  "groupG1 = entityOf ''Group'' ''g1'' None None None"

text \<open>
  A multisig deployment of system \<open>s1\<close>, provided by component \<open>c1\<close>, owned by the entities
  of the given references.
\<close>

definition multisigOf :: "string \<Rightarrow> string list \<Rightarrow> Entity" where
  "multisigOf nm owners =
     entityOf ''API'' nm None
       (Some \<lparr>spec_type = Some ''multisig-deployment'', spec_system = Some ''system:default/s1'',
              spec_owner = None\<rparr>)
       (Some (\<lparr>rel_type = ''apiProvidedBy'', targetRef = ''component:default/c1''\<rparr> #
              map (\<lambda>ow. \<lparr>rel_type = ''ownedBy'', targetRef = ow\<rparr>) owners))"

section \<open>The upward search for the project root\<close>

text \<open>When the loop returns, some prefix of the directory list holds the marker file.\<close>

lemma findRoot_loop_returns_marker:
  assumes "findRoot_loop existsSync rootFile dirs = Some y"
  shows "\<exists>k. k \<le> length dirs \<and> existsSync (testFile rootFile (take k dirs))"
proof (rule findRoot_loop.raw_induct
    [where P = "\<lambda>ex rf ds y. \<exists>k. k \<le> length ds \<and> ex (testFile rf (take k ds))", OF _ assms])
  fix loop :: "(string \<Rightarrow> bool) \<Rightarrow> string \<Rightarrow> string list \<Rightarrow> string list option"
  fix ex rf ds r
  assume IH: "\<And>ex' rf' ds' r'. loop ex' rf' ds' = Some r' \<Longrightarrow>
                \<exists>k. k \<le> length ds' \<and> ex' (testFile rf' (take k ds'))"
    and step: "(if 0 \<le> length ds then
                  (if ex (testFile rf ds) then Some (butlast ds) else loop ex rf (butlast ds))
                else Some ds) = Some r"
  show "\<exists>k. k \<le> length ds \<and> ex (testFile rf (take k ds))"
  proof (cases "ex (testFile rf ds)")
    case True
    then have "length ds \<le> length ds \<and> ex (testFile rf (take (length ds) ds))"
      by simp
    then show ?thesis by blast
  next
    case False
    with step have "loop ex rf (butlast ds) = Some r" by simp
    from IH[OF this] obtain k where k: "k \<le> length (butlast ds)"
      "ex (testFile rf (take k (butlast ds)))" by blast
    have "take k (butlast ds) = take k ds"
      using k(1) by (simp add: butlast_conv_take)
    with k have "k \<le> length ds \<and> ex (testFile rf (take k ds))" by simp
    then show ?thesis by blast
  qed
qed

text \<open>
  When the longest prefix of the directory list that holds the marker has \<open>k\<close> segments, the
  loop returns that prefix less its last segment.
\<close>

lemma findRoot_loop_found:
  "k \<le> length dirs \<Longrightarrow> existsSync (testFile rootFile (take k dirs)) \<Longrightarrow>
   (\<And>j. k < j \<Longrightarrow> j \<le> length dirs \<Longrightarrow> \<not> existsSync (testFile rootFile (take j dirs))) \<Longrightarrow>
   findRoot_loop existsSync rootFile dirs = Some (butlast (take k dirs))"
proof (induction dirs rule: rev_induct)
  case Nil
  then show ?case by (simp add: findRoot_loop.simps)
next
  case (snoc d ds)
  show ?case
  proof (cases "k = Suc (length ds)")
    case True
    with snoc(3) show ?thesis by (subst findRoot_loop.simps) simp
  next
    case False
    with snoc(2) have kle: "k \<le> length ds" by simp
    have "\<not> existsSync (testFile rootFile (take (Suc (length ds)) (ds @ [d])))"
      using snoc(4)[of "Suc (length ds)"] kle by simp
    then have nex: "\<not> existsSync (testFile rootFile (ds @ [d]))" by simp
    have ih: "findRoot_loop existsSync rootFile ds = Some (butlast (take k ds))"
    proof (rule snoc.IH[OF kle])
      show "existsSync (testFile rootFile (take k ds))" using snoc(3) kle by simp
    next
      fix j assume "k < j" "j \<le> length ds"
      then show "\<not> existsSync (testFile rootFile (take j ds))"
        using snoc(4)[of j] by simp
    qed
    show ?thesis
      using nex ih kle by (subst findRoot_loop.simps) simp
  qed
qed

text \<open>
  C2.  The specification has \<open>findRoot("a/b/c/file.sol", "package.json")\<close> return \<open>a/b\<close> when
  \<open>a/b/package.json\<close> exists and no deeper marker does.  The code returns \<open>a\<close>: the \<open>finally\<close>
  block pops the directory list once more on the way out of the loop, after the marker was
  found in \<open>a/b\<close>.
\<close>

theorem findRoot_returns_parent_of_marker_dir:
  "findRoot (\<lambda>p. p = ''a/b/package.json'') ''a/b/c/file.sol'' ''package.json'' = Some ''a''"
  by code_simp

text \<open>
  C3.  The specification has \<open>findRoot\<close> return the repository root when no ancestor directory
  holds the marker.  The code never returns then: the loop runs while \<open>dirs.length >= 0\<close>,
  which is always, and leaves only through the \<open>break\<close> of a marker found.
\<close>

theorem findRoot_without_marker_never_returns:
  "findRoot (\<lambda>p. False) fileName rootFile = None"
proof (cases "findRoot_loop (\<lambda>p. False) rootFile (split_slash fileName)")
  case None
  then show ?thesis by (simp add: findRoot_def)
next
  case (Some y)
  from findRoot_loop_returns_marker[OF this] show ?thesis by simp
qed

section \<open>The component matrix\<close>

lemma startsWith_iff: "startsWith s p \<longleftrightarrow> (\<exists>r. s = p @ r)"
  by (induction s p rule: startsWith.induct) auto

text \<open>
  The changed files are paths relative to the repository root, the annotation of a candidate
  starts with \<open>url:\<close>: no candidate is ever found changed.
\<close>

lemma changedContracts_relative_paths:
  assumes "\<And>f. f \<in> set changedFiles \<Longrightarrow> \<not> startsWith (filename f) ''url:''"
  shows "changedContracts changedFiles (contractItems url items) = []"
proof -
  have "\<not> list_ex (\<lambda>f. startsWith (filename f) loc) changedFiles"
    if "startsWith loc (''url:'' @ url)" for loc
  proof -
    from that obtain rest where loc: "loc = (''url:'' @ url) @ rest"
      unfolding startsWith_iff by blast
    have "\<not> startsWith (filename f) loc" if "f \<in> set changedFiles" for f
      using assms[OF that] unfolding startsWith_iff loc by auto
    then show ?thesis unfolding list_ex_iff by blast
  qed
  then show ?thesis
    unfolding changedContracts_def contractItems_def
    by (auto simp: filter_empty_conv split: option.splits)
qed

lemma mapRows_Inr:
  "mapRows f xs = Some (Inr ys) \<Longrightarrow> list_all2 (\<lambda>x y. f x = Some (Inr y)) xs ys"
  by (induction xs arbitrary: ys) (auto split: option.splits sum.splits)

lemma mapRows_raises:
  "x \<in> set xs \<Longrightarrow> f x = Some (Inl e) \<Longrightarrow> mapRows f xs \<noteq> Some (Inr ys)"
  by (induction xs arbitrary: ys) (auto split: option.splits sum.splits)

lemma mapRows_cong_set:
  "(\<And>x. x \<in> set xs \<Longrightarrow> f x = g x) \<Longrightarrow> mapRows f xs = mapRows g xs"
  by (induction xs) (auto split: option.splits sum.splits)

lemma matrixRow_force: "matrixRow ex True changed item = matrixRow ex True changed' item"
  by (simp add: matrixRow_def Let_def split: option.splits)

lemma matrixRow_Inr:
  "matrixRow ex force changed item = Some (Inr row) \<Longrightarrow>
   \<exists>ts. tags (metadata item) = Some ts \<and>
        runSlither row = (''near'' \<notin> set ts \<and> (force \<or> item \<in> set changed)) \<and>
        row_name row = name (metadata item)"
  by (auto simp: matrixRow_def Let_def split: option.splits sum.splits)

lemma contractItems_append:
  "contractItems url (xs @ ys) = contractItems url xs @ contractItems url ys"
  by (simp add: contractItems_def)

text \<open>
  C1.  The specification marks a candidate impacted when a changed file's path starts with the
  candidate's source directory: the candidate in \<open>contracts\<close> for the changed file
  \<open>contracts/Foo.sol\<close>.  The code tests the path against the whole source-location annotation,
  \<open>url:https://github.com/org/repo/tree/main/contracts/\<close>, not against \<open>sourceLocationDir\<close>, so on
  a pull request the candidate is not impacted (its tags do not hold \<open>near\<close>, and \<open>runSlither\<close>
  is false).
\<close>

theorem changed_file_under_source_dir_not_impacted:
  "generateComponentMatrix (\<lambda>p. p = ''package.json'') (Some ''https://github.com'') ''org'' ''repo''
     (Some ''pull_request'') [\<lparr>filename = ''contracts/Foo.sol''\<rparr>]
     [contractAt ''foo'' ''contracts'' (Some [])]
   = Some (Inr [\<lparr>row_name = ''foo'', row_tags = Some [], path = ''contracts'', nodeRoot = ''./'',
                 runSlither = False\<rparr>])"
  by code_simp

lemma markerFound_iff:
  "markerFound existsSync rootFile dirs \<longleftrightarrow>
     (\<exists>k. k \<le> length dirs \<and> existsSync (testFile rootFile (take k dirs)))"
proof -
  have "set [0..<Suc (length dirs)] = {k. k \<le> length dirs}" by auto
  then show ?thesis unfolding markerFound_def list_ex_iff by blast
qed

lemma findRoot_loop_terminates:
  "markerFound existsSync rootFile dirs \<Longrightarrow> \<exists>r. findRoot_loop existsSync rootFile dirs = Some r"
proof (induction dirs rule: rev_induct)
  case Nil
  then show ?case unfolding markerFound_iff by (subst findRoot_loop.simps) simp
next
  case (snoc d ds)
  show ?case
  proof (cases "existsSync (testFile rootFile (ds @ [d]))")
    case True
    then show ?thesis by (subst findRoot_loop.simps) simp
  next
    case False
    from snoc.prems obtain k where k: "k \<le> length (ds @ [d])"
      "existsSync (testFile rootFile (take k (ds @ [d])))"
      unfolding markerFound_iff by blast
    have "k \<noteq> Suc (length ds)"
    proof
      assume "k = Suc (length ds)"
      with k(2) have "existsSync (testFile rootFile (ds @ [d]))" by simp
      with False show False ..
    qed
    with k(1) have kle: "k \<le> length ds" by simp
    with k(2) have "existsSync (testFile rootFile (take k ds))" by simp
    with kle have "markerFound existsSync rootFile ds"
      unfolding markerFound_iff by blast
    from snoc.IH[OF this] False show ?thesis by (subst findRoot_loop.simps) simp
  qed
qed

lemma findRoot_returns:
  "markerFound existsSync rootFile (split_slash fileName) \<Longrightarrow>
   \<exists>r. findRoot existsSync fileName rootFile = Some r"
  by (drule findRoot_loop_terminates) (auto simp: findRoot_def)

lemma findRoot_diverges:
  assumes "\<not> markerFound existsSync rootFile (split_slash fileName)"
  shows "findRoot existsSync fileName rootFile = None"
proof (cases "findRoot_loop existsSync rootFile (split_slash fileName)")
  case None
  then show ?thesis by (simp add: findRoot_def)
next
  case (Some y)
  from findRoot_loop_returns_marker[OF this] assms show ?thesis
    unfolding markerFound_iff by blast
qed

lemma mapRows_returns:
  "(\<And>x. x \<in> set xs \<Longrightarrow> \<exists>y. f x = Some (Inr y)) \<Longrightarrow> \<exists>ys. mapRows f xs = Some (Inr ys)"
proof (induction xs)
  case Nil
  then show ?case by simp
next
  case (Cons x xs)
  from Cons.prems[of x] obtain y where y: "f x = Some (Inr y)" by auto
  from Cons.IH Cons.prems obtain ys where "mapRows f xs = Some (Inr ys)" by auto
  with y show ?case by simp
qed

lemma matrixRow_returns:
  assumes "tags (metadata item) = Some ts" and "sourceLocationDir item = Inr dir"
    and "markerFound existsSync ''package.json'' (split_slash dir)"
  shows "\<exists>row. matrixRow existsSync force changed item = Some (Inr row)"
proof -
  from findRoot_returns[OF assms(3)] obtain root where "findRoot existsSync dir ''package.json'' = Some root" ..
  with assms(1,2) show ?thesis by (simp add: matrixRow_def Let_def)
qed

text \<open>
  C6 as the specification states it fails.  On a forced run, a candidate without a tags list
  makes the construction of its row raise, and a candidate whose directories up to the
  repository root hold no \<open>package.json\<close> makes \<open>findRoot\<close> run for ever: in neither case is
  there a matrix in which the candidate is marked.
\<close>

theorem forced_run_returns_no_matrix:
  "generateComponentMatrix (\<lambda>p. p = ''package.json'') (Some ''https://github.com'') ''org'' ''repo''
     (Some ''push'') [] [contractAt ''foo'' ''contracts'' None] = Some (Inl TypeError) \<and>
   generateComponentMatrix (\<lambda>p. False) (Some ''https://github.com'') ''org'' ''repo''
     (Some ''push'') [] [contractAt ''foo'' ''contracts'' (Some [])] = None"
proof -
  let ?x = "contractAt ''foo'' ''contracts'' (Some [])"
  have a: "generateComponentMatrix (\<lambda>p. p = ''package.json'') (Some ''https://github.com'') ''org'' ''repo''
     (Some ''push'') [] [contractAt ''foo'' ''contracts'' None] = Some (Inl TypeError)"
    by code_simp
  have c: "contractItems (repoUrl (Some ''https://github.com'') ''org'' ''repo'') [?x] = [?x]"
    by code_simp
  have t: "tags (metadata ?x) = Some []" by code_simp
  have d: "sourceLocationDir ?x = Inr ''contracts''" by code_simp
  have "\<not> markerFound (\<lambda>p. False) ''package.json'' (split_slash ''contracts'')"
    unfolding markerFound_iff by simp
  then have f: "findRoot (\<lambda>p. False) ''contracts'' ''package.json'' = None"
    by (rule findRoot_diverges)
  have "matrixRow (\<lambda>p. False) force changed ?x = None" for force changed
    by (simp add: matrixRow_def Let_def t d f)
  then have "generateComponentMatrix (\<lambda>p. False) (Some ''https://github.com'') ''org'' ''repo''
     (Some ''push'') [] [?x] = None"
    by (simp add: generateComponentMatrix_def Let_def c)
  with a show ?thesis by blast
qed

text \<open>
  C6, amended.  When the event is not a pull request (\<open>forceAll\<close>), every candidate has a tags
  list and, for every candidate, some directory from its source directory up to the
  repository root holds \<open>package.json\<close>, the matrix is returned, whatever the changed files
  are, the empty list included.  It has one row per candidate, in order; every candidate
  counts as impacted, and the flag \<open>runSlither\<close> of its row is the tag test (the tags do not
  hold \<open>near\<close>) and the impact decision, hence the tag test alone.
\<close>

theorem forced_run_marks_every_candidate:
  assumes force: "forceAll eventName"
    and tagged: "\<forall>item \<in> set (contractItems (repoUrl su ro rn) items). tags (metadata item) \<noteq> None"
    and marker: "\<forall>item \<in> set (contractItems (repoUrl su ro rn) items).
                   (case sourceLocationDir item of
                      Inl e \<Rightarrow> True
                    | Inr dir \<Rightarrow> markerFound ex ''package.json'' (split_slash dir))"
  shows "\<exists>rows.
           (\<forall>changedFiles. generateComponentMatrix ex su ro rn eventName changedFiles items = Some (Inr rows)) \<and>
           list_all2 (\<lambda>item row. \<exists>ts. tags (metadata item) = Some ts \<and>
              row_name row = name (metadata item) \<and>
              (\<forall>changedFiles.
                 runSlither row = (''near'' \<notin> set ts \<and>
                   (forceAll eventName \<or>
                    item \<in> set (changedContracts changedFiles (contractItems (repoUrl su ro rn) items))))) \<and>
              runSlither row = (''near'' \<notin> set ts))
             (contractItems (repoUrl su ro rn) items) rows"
proof -
  let ?cands = "contractItems (repoUrl su ro rn) items"
  have "mapRows (matrixRow ex True c) xs = mapRows (matrixRow ex True []) xs" for c xs
    by (rule mapRows_cong_set) (rule matrixRow_force)
  then have eq: "generateComponentMatrix ex su ro rn eventName cf items
                   = mapRows (matrixRow ex True []) ?cands" for cf
    using force by (simp add: generateComponentMatrix_def Let_def)
  have "\<exists>row. matrixRow ex True [] item = Some (Inr row)" if "item \<in> set ?cands" for item
  proof -
    from tagged that obtain ts where ts: "tags (metadata item) = Some ts" by auto
    from that obtain loc where "sourceLocation item = Some loc"
      by (auto simp: contractItems_def split: option.splits)
    then obtain dir where dir: "sourceLocationDir item = Inr dir"
      by (simp add: sourceLocationDir_def)
    with marker that have "markerFound ex ''package.json'' (split_slash dir)" by force
    with ts dir show ?thesis by (rule matrixRow_returns)
  qed
  then obtain rows where rows: "mapRows (matrixRow ex True []) ?cands = Some (Inr rows)"
    using mapRows_returns[of ?cands "matrixRow ex True []"] by blast
  then have "list_all2 (\<lambda>x y. matrixRow ex True [] x = Some (Inr y)) ?cands rows"
    by (rule mapRows_Inr)
  then have "list_all2 (\<lambda>item row. \<exists>ts. tags (metadata item) = Some ts \<and>
              row_name row = name (metadata item) \<and>
              (\<forall>changedFiles.
                 runSlither row = (''near'' \<notin> set ts \<and>
                   (forceAll eventName \<or> item \<in> set (changedContracts changedFiles ?cands)))) \<and>
              runSlither row = (''near'' \<notin> set ts)) ?cands rows"
    by (rule list_all2_mono) (use force in \<open>auto dest!: matrixRow_Inr\<close>)
  with rows eq show ?thesis by auto
qed

theorem forced_run_marks_every_candidate_witness:
  "forceAll (Some ''push'') \<and>
   generateComponentMatrix (\<lambda>p. p = ''package.json'') (Some ''https://github.com'') ''org'' ''repo''
     (Some ''push'') [] [contractAt ''foo'' ''contracts'' (Some []), contractAt ''bar'' ''bridge'' (Some [''near''])]
   = Some (Inr [\<lparr>row_name = ''foo'', row_tags = Some [], path = ''contracts'', nodeRoot = ''./'',
                 runSlither = True\<rparr>,
                \<lparr>row_name = ''bar'', row_tags = Some [''near''], path = ''bridge'', nodeRoot = ''./'',
                 runSlither = False\<rparr>]) \<and>
   generateComponentMatrix (\<lambda>p. p = ''package.json'') (Some ''https://github.com'') ''org'' ''repo''
     (Some ''push'') [\<lparr>filename = ''README.md''\<rparr>]
     [contractAt ''foo'' ''contracts'' (Some []), contractAt ''bar'' ''bridge'' (Some [''near''])]
   = Some (Inr [\<lparr>row_name = ''foo'', row_tags = Some [], path = ''contracts'', nodeRoot = ''./'',
                 runSlither = True\<rparr>,
                \<lparr>row_name = ''bar'', row_tags = Some [''near''], path = ''bridge'', nodeRoot = ''./'',
                 runSlither = False\<rparr>])"
proof -
  let ?items = "[contractAt ''foo'' ''contracts'' (Some []), contractAt ''bar'' ''bridge'' (Some [''near''])]"
  let ?ex = "\<lambda>p. p = ''package.json''"
  have h1: "forceAll (Some ''push'')" by code_simp
  have h2: "\<forall>item \<in> set (contractItems (repoUrl (Some ''https://github.com'') ''org'' ''repo'') ?items).
              tags (metadata item) \<noteq> None"
    by code_simp
  have h3: "\<forall>item \<in> set (contractItems (repoUrl (Some ''https://github.com'') ''org'' ''repo'') ?items).
              (case sourceLocationDir item of
                 Inl e \<Rightarrow> True
               | Inr dir \<Rightarrow> markerFound ?ex ''package.json'' (split_slash dir))"
    by code_simp
  have r: "generateComponentMatrix ?ex (Some ''https://github.com'') ''org'' ''repo'' (Some ''push'') [] ?items
   = Some (Inr [\<lparr>row_name = ''foo'', row_tags = Some [], path = ''contracts'', nodeRoot = ''./'',
                 runSlither = True\<rparr>,
                \<lparr>row_name = ''bar'', row_tags = Some [''near''], path = ''bridge'', nodeRoot = ''./'',
                 runSlither = False\<rparr>])" by code_simp
  from forced_run_marks_every_candidate[OF h1 h2 h3]
  obtain rows where all: "\<forall>changedFiles.
      generateComponentMatrix ?ex (Some ''https://github.com'') ''org'' ''repo'' (Some ''push'') changedFiles ?items
        = Some (Inr rows)"
    by blast
  from all[rule_format, of "[]"] r
  have "rows = [\<lparr>row_name = ''foo'', row_tags = Some [], path = ''contracts'', nodeRoot = ''./'',
                 runSlither = True\<rparr>,
                \<lparr>row_name = ''bar'', row_tags = Some [''near''], path = ''bridge'', nodeRoot = ''./'',
                 runSlither = False\<rparr>]" by simp
  with all[rule_format, of "[\<lparr>filename = ''README.md''\<rparr>]"] h1 r show ?thesis by simp
qed

text \<open>
  C9 as the specification states it fails: a contract entity without the source-location
  annotation raises no error.  The repository filter drops it, and the matrix is returned
  without a row for it.
\<close>

theorem unlocated_contract_dropped_without_error:
  "generateComponentMatrix (\<lambda>p. False) (Some ''https://github.com'') ''org'' ''repo'' (Some ''push'') []
     [contractUnlocated ''foo'' (Some [])] = Some (Inr [])"
  by code_simp

text \<open>
  C9, amended.  An entity without the source-location annotation is never a candidate: no row
  is built for it, no error is raised for it, and the matrix is that of the other entities.
  \<open>sourceLocationDir\<close> applied to such an entity raises a \<open>TypeError\<close>; it returns no empty or
  guessed path.
\<close>

theorem missing_annotation_filtered_out:
  assumes "sourceLocation e = None"
  shows "e \<notin> set (contractItems url items) \<and> sourceLocationDir e = Inl TypeError \<and>
         generateComponentMatrix ex su ro rn ev cf (pre @ e # post)
           = generateComponentMatrix ex su ro rn ev cf (pre @ post)"
proof -
  have a: "e \<notin> set (contractItems url items)" for url items
    using assms by (auto simp: contractItems_def)
  have "contractItems url [e] = []" for url
    using assms by (simp add: contractItems_def)
  then have "contractItems url (pre @ e # post) = contractItems url (pre @ post)" for url
    using contractItems_append[of url pre "[e] @ post"] contractItems_append[of url "[e]" post]
    by (simp add: contractItems_append)
  then show ?thesis using a assms
    by (simp add: generateComponentMatrix_def sourceLocationDir_def)
qed

theorem missing_annotation_filtered_out_witness:
  "sourceLocation (contractUnlocated ''foo'' (Some [])) = None \<and>
   contractUnlocated ''foo'' (Some []) \<notin> set (contractItems ''https://github.com/org/repo''
      [contractAt ''bar'' ''bridge'' (Some []), contractUnlocated ''foo'' (Some [])]) \<and>
   sourceLocationDir (contractUnlocated ''foo'' (Some [])) = Inl TypeError \<and>
   generateComponentMatrix (\<lambda>p. p = ''package.json'') (Some ''https://github.com'') ''org'' ''repo''
     (Some ''push'') [] ([contractAt ''bar'' ''bridge'' (Some [])] @ contractUnlocated ''foo'' (Some []) # [])
   = generateComponentMatrix (\<lambda>p. p = ''package.json'') (Some ''https://github.com'') ''org'' ''repo''
     (Some ''push'') [] ([contractAt ''bar'' ''bridge'' (Some [])] @ [])"
proof -
  have h: "sourceLocation (contractUnlocated ''foo'' (Some [])) = None" by code_simp
  from missing_annotation_filtered_out[OF h] show ?thesis using h by blast
qed

text \<open>
  C10.  A candidate whose metadata has no tags list makes the construction of its row raise a
  \<open>TypeError\<close> (\<open>tags.includes\<close> on \<open>undefined\<close>), and with such a candidate in the catalog the
  matrix is not returned: generation returns a matrix only if every candidate has a tags list.
\<close>

theorem missing_tags_row_raises:
  assumes "item \<in> set (contractItems (repoUrl su ro rn) items)" and "tags (metadata item) = None"
  shows "matrixRow ex force changed item = Some (Inl TypeError) \<and>
         generateComponentMatrix ex su ro rn ev cf items \<noteq> Some (Inr rows)"
proof -
  have r: "matrixRow ex force changed item = Some (Inl TypeError)" for force changed
    using assms(2) by (simp add: matrixRow_def)
  have "mapRows (matrixRow ex force' changed') (contractItems (repoUrl su ro rn) items) \<noteq> Some (Inr rows)"
    for force' changed'
    using assms(1) r by (rule mapRows_raises)
  with r show ?thesis
    by (simp add: generateComponentMatrix_def Let_def)
qed

theorem missing_tags_row_raises_witness:
  "contractAt ''foo'' ''contracts'' None
     \<in> set (contractItems (repoUrl (Some ''https://github.com'') ''org'' ''repo'')
              [contractAt ''bar'' ''bridge'' (Some []), contractAt ''foo'' ''contracts'' None]) \<and>
   tags (metadata (contractAt ''foo'' ''contracts'' None)) = None \<and>
   matrixRow (\<lambda>p. p = ''package.json'') True [] (contractAt ''foo'' ''contracts'' None) = Some (Inl TypeError) \<and>
   generateComponentMatrix (\<lambda>p. p = ''package.json'') (Some ''https://github.com'') ''org'' ''repo''
     (Some ''push'') [] [contractAt ''bar'' ''bridge'' (Some []), contractAt ''foo'' ''contracts'' None]
     \<noteq> Some (Inr [])"
proof -
  have h1: "contractAt ''foo'' ''contracts'' None
     \<in> set (contractItems (repoUrl (Some ''https://github.com'') ''org'' ''repo'')
              [contractAt ''bar'' ''bridge'' (Some []), contractAt ''foo'' ''contracts'' None])"
    by code_simp
  have h2: "tags (metadata (contractAt ''foo'' ''contracts'' None)) = None" by code_simp
  from missing_tags_row_raises[OF h1 h2] show ?thesis using h1 h2 by blast
qed

section \<open>Sorting, and arrays with raising callbacks\<close>

lemma mset_insert_cmp: "mset (insert_cmp cmp x xs) = add_mset x (mset xs)"
  by (induction xs) auto

lemma mset_sort_cmp: "mset (sort_cmp cmp xs) = mset xs"
  by (induction xs) (auto simp: sort_cmp_def mset_insert_cmp)

lemma set_sort_cmp: "set (sort_cmp cmp xs) = set xs"
  using mset_sort_cmp[of cmp xs] by (metis set_mset_mset)

lemma length_sort_cmp: "length (sort_cmp cmp xs) = length xs"
  using mset_sort_cmp[of cmp xs] by (metis size_mset)

lemma set_insert_cmp: "set (insert_cmp cmp x xs) = insert x (set xs)"
  using mset_insert_cmp[of cmp x xs] by (metis set_mset_mset set_mset_add_mset_insert)

lemma sorted_insert_cmp:
  assumes tot: "\<And>a b. cmp a b \<le> 0 \<or> cmp b a \<le> 0"
    and trans: "\<And>a b c. cmp a b \<le> 0 \<Longrightarrow> cmp b c \<le> 0 \<Longrightarrow> cmp a c \<le> 0"
  shows "sorted_wrt (\<lambda>a b. cmp a b \<le> 0) xs \<Longrightarrow> sorted_wrt (\<lambda>a b. cmp a b \<le> 0) (insert_cmp cmp x xs)"
proof (induction xs)
  case Nil
  then show ?case by simp
next
  case (Cons y ys)
  show ?case
  proof (cases "cmp x y \<le> 0")
    case True
    then show ?thesis using Cons.prems trans by auto
  next
    case False
    then have "cmp y x \<le> 0" using tot[of x y] by simp
    then show ?thesis using False Cons by (auto simp: set_insert_cmp)
  qed
qed

lemma sorted_sort_cmp:
  assumes tot: "\<And>a b. cmp a b \<le> 0 \<or> cmp b a \<le> 0"
    and trans: "\<And>a b c. cmp a b \<le> 0 \<Longrightarrow> cmp b c \<le> 0 \<Longrightarrow> cmp a c \<le> 0"
  shows "sorted_wrt (\<lambda>a b. cmp a b \<le> 0) (sort_cmp cmp xs)"
proof (induction xs)
  case Nil
  then show ?case by (simp add: sort_cmp_def)
next
  case (Cons x xs)
  have "sort_cmp cmp (x # xs) = insert_cmp cmp x (sort_cmp cmp xs)"
    by (simp add: sort_cmp_def)
  then show ?case using sorted_insert_cmp[OF tot trans Cons] by simp
qed

lemma mapE_Inr: "mapE f xs = Inr ys \<Longrightarrow> list_all2 (\<lambda>x y. f x = Inr y) xs ys"
  by (induction xs arbitrary: ys) (auto split: sum.splits)

lemma mapE_fails: "x \<in> set xs \<Longrightarrow> f x = Inl e \<Longrightarrow> isl (mapE f xs)"
  by (induction xs) (auto split: sum.splits)

lemma mapE_cong_set: "(\<And>x. x \<in> set xs \<Longrightarrow> f x = g x) \<Longrightarrow> mapE f xs = mapE g xs"
  by (induction xs) (auto split: sum.splits)

lemma filterE_Inr: "filterE p xs = Inr ys \<Longrightarrow> ys = filter (\<lambda>x. p x = Inr True) xs"
  by (induction xs arbitrary: ys) (auto split: sum.splits if_splits)

lemma filterE_keeps: "filterE p xs = Inr ys \<Longrightarrow> x \<in> set xs \<Longrightarrow> p x = Inr True \<Longrightarrow> x \<in> set ys"
  by (drule filterE_Inr) simp


lemma codeCompare_Cons_le:
  "codeCompare (x # xs) (y # ys) \<le> 0 \<longleftrightarrow>
     (of_char x :: nat) < of_char y \<or> (x = y \<and> codeCompare xs ys \<le> 0)"
proof (cases "(of_char x :: nat) < of_char y")
  case True
  then show ?thesis by simp
next
  case False
  note nlt = this
  show ?thesis
  proof (cases "(of_char y :: nat) < of_char x")
    case True
    then have "x \<noteq> y" by auto
    with True nlt show ?thesis by simp
  next
    case False
    with nlt have "(of_char x :: nat) = of_char y" by linarith
    then have "x = y" by simp
    then show ?thesis by simp
  qed
qed

lemma codeCompare_total: "codeCompare a b \<le> 0 \<or> codeCompare b a \<le> 0"
proof (induction a arbitrary: b)
  case Nil
  then show ?case by (cases b) simp_all
next
  case (Cons x xs)
  show ?case
  proof (cases b)
    case Nil
    then show ?thesis by simp
  next
    case (Cons y ys)
    consider "(of_char x :: nat) < of_char y" | "(of_char y :: nat) < of_char x" | "x = y"
      by (metis linorder_neqE_nat of_char_eq_iff)
    then show ?thesis
    proof cases
      case 1
      then show ?thesis unfolding Cons codeCompare_Cons_le by blast
    next
      case 2
      then show ?thesis unfolding Cons codeCompare_Cons_le by blast
    next
      case 3
      then show ?thesis using Cons.IH[of ys] unfolding Cons codeCompare_Cons_le by blast
    qed
  qed
qed

lemma codeCompare_trans:
  "codeCompare a b \<le> 0 \<Longrightarrow> codeCompare b c \<le> 0 \<Longrightarrow> codeCompare a c \<le> 0"
proof (induction a arbitrary: b c)
  case Nil
  then show ?case by (cases c) simp_all
next
  case (Cons x xs)
  from Cons.prems(1) obtain y ys where b: "b = y # ys" by (cases b) simp_all
  from Cons.prems(2) b obtain z zs where c: "c = z # zs" by (cases c) simp_all
  from Cons.prems(1) have xy: "(of_char x :: nat) < of_char y \<or> (x = y \<and> codeCompare xs ys \<le> 0)"
    unfolding b codeCompare_Cons_le .
  from Cons.prems(2) have yz: "(of_char y :: nat) < of_char z \<or> (y = z \<and> codeCompare ys zs \<le> 0)"
    unfolding b c codeCompare_Cons_le .
  have "(of_char x :: nat) < of_char z \<or> (x = z \<and> codeCompare xs zs \<le> 0)"
    using xy yz Cons.IH[of ys zs] by (metis less_trans)
  then show ?case unfolding c codeCompare_Cons_le .
qed

lemma filterE_total: "filterE p xs = Inr ys \<Longrightarrow> x \<in> set xs \<Longrightarrow> \<exists>b. p x = Inr b"
  by (induction xs arbitrary: ys) (auto split: sum.splits if_splits)

lemma filterE_fails_or_keeps:
  "x \<in> set xs \<Longrightarrow> p x = Inr True \<Longrightarrow> isl (filterE p xs) \<or> (\<exists>ys. filterE p xs = Inr ys \<and> x \<in> set ys)"
  by (cases "filterE p xs") (auto dest: filterE_keeps)

lemma findEntity_Some:
  "findEntity this ref = Some e \<Longrightarrow> stringifyEntityRef e = ref \<and> e \<in> set (entities this)"
  unfolding findEntity_def by (auto simp: find_Some_iff)




lemma hierarchy_collectSystems: "hierarchy lc es = collectSystems lc (thisOf es)"
  by (simp add: hierarchy_def new_MultisigsCollector_def Let_def split: sum.splits)

lemma collectSystems_cong:
  assumes ms: "multisigs this = multisigs this'"
    and fe: "\<And>r. findEntity this r = findEntity this' r"
  shows "collectSystems lc this = collectSystems lc this'"
proof -
  have fe': "findEntity this = findEntity this'"
    by (rule ext) (rule fe)
  have rs: "resolveSigner this = resolveSigner this'"
    unfolding resolveSigner_def fe' by (rule refl)
  have cs: "collectSigners lc this = collectSigners lc this'"
    unfolding collectSigners_def rs by (rule refl)
  have mi: "multisigInfo lc this = multisigInfo lc this'"
    unfolding multisigInfo_def cs by (rule refl)
  have cm: "componentMultisigs lc this = componentMultisigs lc this'"
    unfolding componentMultisigs_def mi ms fe' by (rule refl)
  have cc: "collectComponents lc this = collectComponents lc this'"
    unfolding collectComponents_def cm by (rule refl)
  have sf: "systemComponentsFor lc this = systemComponentsFor lc this'"
    unfolding systemComponentsFor_def cc fe' by (rule refl)
  show ?thesis
    unfolding collectSystems_def sf ms by (rule refl)
qed

section \<open>The multisig hierarchy\<close>

lemma list_all2_source: "list_all2 P xs ys \<Longrightarrow> y \<in> set ys \<Longrightarrow> \<exists>x. x \<in> set xs \<and> P x y"
  by (induction rule: list_all2_induct) auto

lemma resolveSigner_Inr:
  assumes "resolveSigner this r = Inr p"
  shows "findEntity this (targetRef r) = Some (ms_signer p) \<and>
         stringifyEntityRef (ms_signer p) = targetRef r \<and>
         ms_owner p = (case spec (ms_signer p) of
                         None \<Rightarrow> None
                       | Some sp \<Rightarrow> (case spec_owner sp of None \<Rightarrow> None | Some ow \<Rightarrow> findEntity this ow))"
proof -
  from assms obtain signer sp where f: "findEntity this (targetRef r) = Some signer"
    and sp: "spec signer = Some sp"
    and p: "p = \<lparr>ms_signer = signer,
                  ms_owner = (case spec_owner sp of None \<Rightarrow> None | Some ow \<Rightarrow> findEntity this ow)\<rparr>"
    by (auto simp: resolveSigner_def split: option.splits)
  from findEntity_Some[OF f] f sp p show ?thesis by simp
qed

lemma isSignerRelation_True:
  "isSignerRelation r = Inr True \<longleftrightarrow>
     rel_type r = ''ownedBy'' \<and> (\<exists>k. parseEntityRef_kind (targetRef r) = Inr k \<and> k \<noteq> ''group'')"
  by (auto simp: isSignerRelation_def split: sum.splits)

lemma sortSigners_Inr:
  assumes "sortSigners lc ps = Inr sgs"
    and tot: "\<And>a b. lc a b \<le> 0 \<or> lc b a \<le> 0"
    and trans: "\<And>a b c. lc a b \<le> 0 \<Longrightarrow> lc b c \<le> 0 \<Longrightarrow> lc a c \<le> 0"
  shows "mset sgs = mset ps \<and>
         sorted_wrt (\<lambda>a b. \<exists>na nb. ownerName a = Some na \<and> ownerName b = Some nb \<and> lc na nb \<le> 0) sgs"
proof (cases "length ps < 2")
  case True
  with assms(1) have "sgs = ps" by (simp add: sortSigners_def)
  moreover from True have "ps = [] \<or> (\<exists>x. ps = [x])"
    by (cases ps) (auto simp: length_Suc_conv)
  ultimately show ?thesis by auto
next
  case False
  let ?key = "\<lambda>a. case ownerName a of None \<Rightarrow> [] | Some n \<Rightarrow> n"
  let ?cmp = "\<lambda>a b. lc (?key a) (?key b)"
  from False assms(1) have owners: "\<not> list_ex (\<lambda>p. ms_owner p = None) ps"
    and sgs: "sgs = sort_cmp ?cmp ps"
    by (auto simp: sortSigners_def split: if_splits)
  have all: "\<And>p. p \<in> set sgs \<Longrightarrow> \<exists>n. ownerName p = Some n"
    using owners unfolding sgs set_sort_cmp list_ex_iff ownerName_def
    by (auto split: option.splits)
  have "sorted_wrt (\<lambda>a b. ?cmp a b \<le> 0) (sort_cmp ?cmp ps)"
    by (rule sorted_sort_cmp) (use tot trans in blast)+
  then have "sorted_wrt (\<lambda>a b. ?cmp a b \<le> 0) sgs" by (simp add: sgs)
  then have "sorted_wrt (\<lambda>a b. \<exists>na nb. ownerName a = Some na \<and> ownerName b = Some nb \<and> lc na nb \<le> 0) sgs"
  proof (rule sorted_wrt_mono_rel[rotated])
    fix a b assume "a \<in> set sgs" "b \<in> set sgs" "?cmp a b \<le> 0"
    with all[of a] all[of b]
    show "\<exists>na nb. ownerName a = Some na \<and> ownerName b = Some nb \<and> lc na nb \<le> 0"
      by auto
  qed
  then show ?thesis by (simp add: sgs mset_sort_cmp)
qed

lemma toLowerCase_char_idem: "toLowerCase_char (toLowerCase_char c) = toLowerCase_char c"
proof -
  let ?n = "of_char c :: nat"
  show ?thesis
  proof (cases "65 \<le> ?n \<and> ?n \<le> 90")
    case True
    then have "(of_char (char_of (?n + 32)) :: nat) = ?n + 32" by simp
    with True show ?thesis by (simp add: toLowerCase_char_def Let_def)
  next
    case False
    then show ?thesis by (auto simp: toLowerCase_char_def Let_def)
  qed
qed

lemma toLowerCase_idem: "toLowerCase (toLowerCase s) = toLowerCase s"
  by (simp add: toLowerCase_def toLowerCase_char_idem)

lemma toLowerCase_append: "toLowerCase (a @ b) = toLowerCase a @ toLowerCase b"
  by (simp add: toLowerCase_def)

lemma toLowerCase_stringifyEntityRef: "toLowerCase (stringifyEntityRef e) = stringifyEntityRef e"
proof -
  have c: "toLowerCase '':'' = '':''" "toLowerCase ''/'' = ''/''"
    by code_simp+
  show ?thesis
    unfolding stringifyEntityRef_def toLowerCase_append toLowerCase_idem c by (rule refl)
qed

lemma parseEntityRef_kind_take: "parseEntityRef_kind ref = Inr k \<Longrightarrow> \<exists>c. k = take c ref"
  by (auto simp: parseEntityRef_kind_def Let_def split: if_splits option.splits)

lemma kind_of_stringified:
  assumes "parseEntityRef_kind (stringifyEntityRef e) = Inr k"
  shows "toLowerCase k = k"
proof -
  from parseEntityRef_kind_take[OF assms] obtain c where k: "k = take c (stringifyEntityRef e)" ..
  have "toLowerCase k = take c (toLowerCase (stringifyEntityRef e))"
    unfolding k toLowerCase_def by (simp add: take_map)
  then show ?thesis by (simp add: toLowerCase_stringifyEntityRef k)
qed

lemma sortSigners_owners:
  assumes "sortSigners lc ps = Inr sgs" and "2 \<le> length sgs"
  shows "\<forall>p \<in> set sgs. \<exists>ow. ms_owner p = Some ow"
proof -
  have len: "length sgs = length ps"
    using assms(1) by (auto simp: sortSigners_def length_sort_cmp split: if_splits)
  with assms have "\<not> list_ex (\<lambda>p. ms_owner p = None) ps" and "set sgs = set ps"
    by (auto simp: sortSigners_def set_sort_cmp split: if_splits)
  then show ?thesis by (auto simp: list_ex_iff)
qed


text \<open>
  C8 as the specification states it fails: the only signer of the artifact declares an owner,
  \<open>user:default/zed\<close>, that is not in the catalog, and \<open>collectSigners\<close> returns an entry that
  pairs the signer with no owner.
\<close>

theorem lone_signer_without_owner:
  "findEntity (thisOf [sysS1, compC1, multisigOf ''a1'' [''user:default/u1''], userOf ''u1'' ''zed''])
     ''user:default/zed'' = None \<and>
   collectSigners codeCompare
     (thisOf [sysS1, compC1, multisigOf ''a1'' [''user:default/u1''], userOf ''u1'' ''zed''])
     (multisigOf ''a1'' [''user:default/u1''])
   = Inr [\<lparr>ms_signer = userOf ''u1'' ''zed'', ms_owner = None\<rparr>]"
  by code_simp

text \<open>
  C8, amended.  The signer list that \<open>collectSigners\<close> returns for an artifact has one entry
  for every owned-by relation whose target is not of kind \<open>group\<close>, and none for a relation
  whose target is: the references of the signers are, up to order, the targets of those
  relations, and no signer's reference is of kind group in any capitalisation.  Every entry
  holds the entity that the target resolves to, paired with what the signer's declared owner
  reference resolves to.  In a list of two or more entries every entry has an owner and, for a
  comparison of names that is total and transitive, the entries are in the order of their
  owners' names; a single entry may be without owner.
\<close>

theorem signers_pair_owners_without_groups:
  assumes res: "collectSigners lc this multisig = Inr sgs"
    and tot: "\<And>a b. lc a b \<le> 0 \<or> lc b a \<le> 0"
    and trans: "\<And>a b c. lc a b \<le> 0 \<Longrightarrow> lc b c \<le> 0 \<Longrightarrow> lc a c \<le> 0"
  shows "mset (map (\<lambda>p. stringifyEntityRef (ms_signer p)) sgs)
           = mset (map targetRef
               (filter (\<lambda>r. rel_type r = ''ownedBy'' \<and> parseEntityRef_kind (targetRef r) \<noteq> Inr ''group'')
                  (relationsOf multisig)))
       \<and> (\<forall>p \<in> set sgs.
             (\<forall>k. parseEntityRef_kind (stringifyEntityRef (ms_signer p)) = Inr k \<longrightarrow>
                  toLowerCase k \<noteq> ''group'') \<and>
             findEntity this (stringifyEntityRef (ms_signer p)) = Some (ms_signer p) \<and>
             ms_owner p = (case spec (ms_signer p) of
                             None \<Rightarrow> None
                           | Some sp \<Rightarrow> (case spec_owner sp of None \<Rightarrow> None | Some ow \<Rightarrow> findEntity this ow)))
       \<and> (2 \<le> length sgs \<longrightarrow>
             (\<forall>p \<in> set sgs. \<exists>ow. ms_owner p = Some ow) \<and>
             sorted_wrt (\<lambda>a b. \<exists>na nb. ownerName a = Some na \<and> ownerName b = Some nb \<and> lc na nb \<le> 0) sgs)"
proof -
  from res obtain rs ps where rs: "filterE isSignerRelation (relationsOf multisig) = Inr rs"
    and ps: "mapE (resolveSigner this) rs = Inr ps"
    and srt: "sortSigners lc ps = Inr sgs"
    by (auto simp: collectSigners_def split: sum.splits)
  have rs_eq: "rs = filter (\<lambda>r. isSignerRelation r = Inr True) (relationsOf multisig)"
    using rs by (rule filterE_Inr)
  have "isSignerRelation r = Inr True \<longleftrightarrow>
          rel_type r = ''ownedBy'' \<and> parseEntityRef_kind (targetRef r) \<noteq> Inr ''group''"
    if "r \<in> set (relationsOf multisig)" for r
    using filterE_total[OF rs that] by (auto simp: isSignerRelation_def split: sum.splits if_splits)
  then have rs_eq': "rs = filter (\<lambda>r. rel_type r = ''ownedBy'' \<and> parseEntityRef_kind (targetRef r) \<noteq> Inr ''group'')
                            (relationsOf multisig)"
    unfolding rs_eq by (auto intro: filter_cong)
  have l2: "list_all2 (\<lambda>r p. resolveSigner this r = Inr p) rs ps"
    using ps by (rule mapE_Inr)
  then have refs: "map (\<lambda>p. stringifyEntityRef (ms_signer p)) ps = map targetRef rs"
    by (induction rule: list_all2_induct) (auto dest: resolveSigner_Inr)
  have "mset sgs = mset ps \<and>
        sorted_wrt (\<lambda>a b. \<exists>na nb. ownerName a = Some na \<and> ownerName b = Some nb \<and> lc na nb \<le> 0) sgs"
    using srt tot trans by (rule sortSigners_Inr)
  then have ms: "mset sgs = mset ps"
    and sorted: "sorted_wrt (\<lambda>a b. \<exists>na nb. ownerName a = Some na \<and> ownerName b = Some nb \<and> lc na nb \<le> 0) sgs"
    by blast+
  have "mset (map (\<lambda>p. stringifyEntityRef (ms_signer p)) sgs) = mset (map (\<lambda>p. stringifyEntityRef (ms_signer p)) ps)"
    using ms by (metis mset_map)
  then have A: "mset (map (\<lambda>p. stringifyEntityRef (ms_signer p)) sgs) = mset (map targetRef rs)"
    by (simp add: refs)
  have B: "(\<forall>k. parseEntityRef_kind (stringifyEntityRef (ms_signer p)) = Inr k \<longrightarrow>
                  toLowerCase k \<noteq> ''group'') \<and>
             findEntity this (stringifyEntityRef (ms_signer p)) = Some (ms_signer p) \<and>
             ms_owner p = (case spec (ms_signer p) of
                             None \<Rightarrow> None
                           | Some sp \<Rightarrow> (case spec_owner sp of None \<Rightarrow> None | Some ow \<Rightarrow> findEntity this ow))"
    if "p \<in> set sgs" for p
  proof -
    from that ms have "p \<in> set ps" by (metis set_mset_mset)
    with l2 obtain r where r: "r \<in> set rs" "resolveSigner this r = Inr p"
      by (blast dest: list_all2_source)
    from r(1) have ng: "parseEntityRef_kind (targetRef r) \<noteq> Inr ''group''"
      unfolding rs_eq' by simp
    note rp = resolveSigner_Inr[OF r(2)]
    have "toLowerCase k \<noteq> ''group''"
      if "parseEntityRef_kind (stringifyEntityRef (ms_signer p)) = Inr k" for k
      using kind_of_stringified[OF that] that ng rp by auto
    with rp show ?thesis by simp
  qed
  have C: "(\<forall>p \<in> set sgs. \<exists>ow. ms_owner p = Some ow)" if "2 \<le> length sgs"
    using srt that by (rule sortSigners_owners)
  from A B C sorted show ?thesis unfolding rs_eq' by blast
qed

theorem signers_pair_owners_without_groups_witness:
  "collectSigners codeCompare
     (thisOf [sysS1, compC1,
              multisigOf ''a1'' [''user:default/u2'', ''user:default/u1'', ''group:default/g1''],
              userOf ''u1'' ''amy'', userOf ''u2'' ''zed'', personOf ''amy'', personOf ''zed'', groupG1])
     (multisigOf ''a1'' [''user:default/u2'', ''user:default/u1'', ''group:default/g1''])
   = Inr [\<lparr>ms_signer = userOf ''u1'' ''amy'', ms_owner = Some (personOf ''amy'')\<rparr>,
          \<lparr>ms_signer = userOf ''u2'' ''zed'', ms_owner = Some (personOf ''zed'')\<rparr>] \<and>
   mset (map (\<lambda>p. stringifyEntityRef (ms_signer p))
          [\<lparr>ms_signer = userOf ''u1'' ''amy'', ms_owner = Some (personOf ''amy'')\<rparr>,
           \<lparr>ms_signer = userOf ''u2'' ''zed'', ms_owner = Some (personOf ''zed'')\<rparr>])
     = mset (map targetRef
         (filter (\<lambda>r. rel_type r = ''ownedBy'' \<and> parseEntityRef_kind (targetRef r) \<noteq> Inr ''group'')
            (relationsOf (multisigOf ''a1'' [''user:default/u2'', ''user:default/u1'', ''group:default/g1''])))) \<and>
   sorted_wrt (\<lambda>a b. \<exists>na nb. ownerName a = Some na \<and> ownerName b = Some nb \<and> codeCompare na nb \<le> 0)
     [\<lparr>ms_signer = userOf ''u1'' ''amy'', ms_owner = Some (personOf ''amy'')\<rparr>,
      \<lparr>ms_signer = userOf ''u2'' ''zed'', ms_owner = Some (personOf ''zed'')\<rparr>]"
proof -
  have h: "collectSigners codeCompare
     (thisOf [sysS1, compC1,
              multisigOf ''a1'' [''user:default/u2'', ''user:default/u1'', ''group:default/g1''],
              userOf ''u1'' ''amy'', userOf ''u2'' ''zed'', personOf ''amy'', personOf ''zed'', groupG1])
     (multisigOf ''a1'' [''user:default/u2'', ''user:default/u1'', ''group:default/g1''])
   = Inr [\<lparr>ms_signer = userOf ''u1'' ''amy'', ms_owner = Some (personOf ''amy'')\<rparr>,
          \<lparr>ms_signer = userOf ''u2'' ''zed'', ms_owner = Some (personOf ''zed'')\<rparr>]"
    by code_simp
  have l: "2 \<le> length [\<lparr>ms_signer = userOf ''u1'' ''amy'', ms_owner = Some (personOf ''amy'')\<rparr>,
          \<lparr>ms_signer = userOf ''u2'' ''zed'', ms_owner = Some (personOf ''zed'')\<rparr>]" by simp
  show ?thesis
    using h l signers_pair_owners_without_groups[where lc = codeCompare, OF h codeCompare_total]
      codeCompare_trans by blast
qed






lemma find_first_match:
  "(\<And>y. y \<in> set ys \<Longrightarrow> \<not> P y) \<Longrightarrow> P x \<Longrightarrow> find P (ys @ x # zs) = Some x"
  by (induction ys) auto

lemma find_skip:
  "find P xs \<noteq> None \<or> \<not> P d \<Longrightarrow> find P (xs @ d # zs) = find P (xs @ zs)"
  by (induction xs) auto

text \<open>
  C7 as the specification states it fails: with two different systems of the same reference
  in the input, the constructor returns, and the hierarchy shows the first of them.
\<close>

theorem duplicate_reference_accepted:
  "stringifyEntityRef (entityOf ''System'' ''s1'' (Some ''First'') None None)
     = stringifyEntityRef (entityOf ''System'' ''s1'' (Some ''Second'') None None) \<and>
   new_MultisigsCollector codeCompare
     [entityOf ''System'' ''s1'' (Some ''First'') None None,
      entityOf ''System'' ''s1'' (Some ''Second'') None None, multisigOf ''a1'' []]
   = Inr \<lparr>systemComponents =
            [\<lparr>sc_title = ''First'', sc_system = entityOf ''System'' ''s1'' (Some ''First'') None None,
              sc_components = []\<rparr>],
          entities = [entityOf ''System'' ''s1'' (Some ''First'') None None,
                      entityOf ''System'' ''s1'' (Some ''Second'') None None, multisigOf ''a1'' []],
          multisigs = [multisigOf ''a1'' []]\<rparr>"
  by code_simp

text \<open>
  C7, amended.  An entity whose reference an earlier entity of the input already has raises
  no error: a lookup of the reference resolves to the first entity in input order that has
  it, and, the later entity not being a multisig deployment, the hierarchy is the one of the
  input without it.
\<close>

theorem duplicate_reference_first_wins:
  assumes "e \<in> set pre" and "stringifyEntityRef d = stringifyEntityRef e" and "\<not> isMultisig d"
  shows "(\<exists>before first after. pre = before @ first # after \<and>
            stringifyEntityRef first = stringifyEntityRef d \<and>
            stringifyEntityRef d \<notin> stringifyEntityRef ` set before \<and>
            findEntity (thisOf (pre @ d # post)) (stringifyEntityRef d) = Some first) \<and>
         hierarchy lc (pre @ d # post) = hierarchy lc (pre @ post)"
proof -
  let ?P = "\<lambda>item. stringifyEntityRef item = stringifyEntityRef d"
  from assms(1,2) have ex: "\<exists>x \<in> set pre. ?P x" by auto
  from split_list_first_prop[where P = ?P, OF ex]
  obtain before first after where sp: "pre = before @ first # after" "?P first"
    "\<forall>y \<in> set before. \<not> ?P y"
    by blast
  have "find ?P (before @ first # (after @ d # post)) = Some first"
    by (rule find_first_match) (use sp in auto)
  then have f: "findEntity (thisOf (pre @ d # post)) (stringifyEntityRef d) = Some first"
    by (simp add: findEntity_def thisOf_def sp(1))
  have nb: "stringifyEntityRef d \<notin> stringifyEntityRef ` set before"
    using sp(3) by force
  have "collectSystems lc (thisOf (pre @ d # post)) = collectSystems lc (thisOf (pre @ post))"
  proof (rule collectSystems_cong)
    show "multisigs (thisOf (pre @ d # post)) = multisigs (thisOf (pre @ post))"
      using assms(3) by (simp add: thisOf_def)
  next
    fix r
    have "find (\<lambda>item. stringifyEntityRef item = r) pre \<noteq> None \<or> stringifyEntityRef d \<noteq> r"
      using assms(1,2) by (auto simp: find_None_iff)
    then have "find (\<lambda>item. stringifyEntityRef item = r) (pre @ d # post)
                 = find (\<lambda>item. stringifyEntityRef item = r) (pre @ post)"
      by (rule find_skip)
    then show "findEntity (thisOf (pre @ d # post)) r = findEntity (thisOf (pre @ post)) r"
      by (simp add: findEntity_def thisOf_def)
  qed
  then have "hierarchy lc (pre @ d # post) = hierarchy lc (pre @ post)"
    by (simp add: hierarchy_collectSystems)
  with sp(1,2) nb f show ?thesis by blast
qed

theorem duplicate_reference_first_wins_witness:
  "entityOf ''System'' ''s1'' (Some ''First'') None None
     \<in> set [entityOf ''System'' ''s1'' (Some ''First'') None None] \<and>
   hierarchy codeCompare
     ([entityOf ''System'' ''s1'' (Some ''First'') None None]
        @ entityOf ''System'' ''s1'' (Some ''Second'') None None # [multisigOf ''a1'' []])
   = hierarchy codeCompare ([entityOf ''System'' ''s1'' (Some ''First'') None None] @ [multisigOf ''a1'' []])"
proof -
  have h1: "entityOf ''System'' ''s1'' (Some ''First'') None None
     \<in> set [entityOf ''System'' ''s1'' (Some ''First'') None None]" by simp
  have h2: "stringifyEntityRef (entityOf ''System'' ''s1'' (Some ''Second'') None None)
     = stringifyEntityRef (entityOf ''System'' ''s1'' (Some ''First'') None None)" by code_simp
  have h3: "\<not> isMultisig (entityOf ''System'' ''s1'' (Some ''Second'') None None)" by code_simp
  from duplicate_reference_first_wins[OF h1 h2 h3] show ?thesis using h1 by blast
qed

















end
